theory Spec2Isabelle
  imports Main "HOL-Library.Word"
begin

unbundle bit_operations_syntax

section \<open>Data model\<close>

text \<open>A Python \<open>bytes\<close> object is a list of bytes; Python integers are unbounded.\<close>

type_synonym byte = "8 word"
type_synonym bytes = "byte list"

text \<open>The exceptions the modelled code can raise.\<close>

datatype error =
    ValueError
  | AssertionError
  | ConditionStackError
  | CScriptInvalidError
  | CScriptTruncatedPushDataError bytes

section \<open>Branch-state tracker (\<open>ConditionStack\<close>, opcodes.py)\<close>

text \<open>
  \<open>ConditionStack.NO_FALSE\<close> is \<open>static_types.max_uint32\<close>, a constant declared outside
  the files at hand; every operation takes it as the parameter \<open>NO_FALSE\<close>.
\<close>

record ConditionStack =
  stack_size :: int
  first_false_position :: int

definition cs_init :: "int \<Rightarrow> ConditionStack" where
  "cs_init NO_FALSE = \<lparr> stack_size = 0, first_false_position = NO_FALSE \<rparr>"

definition empty_cs :: "ConditionStack \<Rightarrow> bool" where
  "empty_cs c = (stack_size c = 0)"

definition all_true :: "int \<Rightarrow> ConditionStack \<Rightarrow> bool" where
  "all_true NO_FALSE c = (first_false_position c = NO_FALSE)"

definition push_back :: "int \<Rightarrow> bool \<Rightarrow> ConditionStack \<Rightarrow> ConditionStack" where
  "push_back NO_FALSE b c =
     (let c1 = (if first_false_position c = NO_FALSE \<and> \<not> b
                then c \<lparr> first_false_position := stack_size c \<rparr> else c)
      in c1 \<lparr> stack_size := stack_size c1 + 1 \<rparr>)"

definition pop_back :: "int \<Rightarrow> ConditionStack \<Rightarrow> error + ConditionStack" where
  "pop_back NO_FALSE c =
     (if \<not> stack_size c > 0 then Inl ConditionStackError
      else let c1 = c \<lparr> stack_size := stack_size c - 1 \<rparr>
           in if first_false_position c1 = stack_size c1
              then Inr (c1 \<lparr> first_false_position := NO_FALSE \<rparr>)
              else Inr c1)"

definition toggle_top :: "int \<Rightarrow> ConditionStack \<Rightarrow> error + ConditionStack" where
  "toggle_top NO_FALSE c =
     (if \<not> stack_size c > 0 then Inl ConditionStackError
      else if first_false_position c = NO_FALSE
           then Inr (c \<lparr> first_false_position := stack_size c - 1 \<rparr>)
      else if first_false_position c = stack_size c - 1
           then Inr (c \<lparr> first_false_position := NO_FALSE \<rparr>)
      else Inr c)"

text \<open>A caller's sequence of tracker operations; a failing operation ends the run.\<close>

datatype cs_op = PushBack bool | PopBack | ToggleTop

fun cs_apply :: "int \<Rightarrow> cs_op \<Rightarrow> ConditionStack \<Rightarrow> error + ConditionStack" where
  "cs_apply NO_FALSE (PushBack b) c = Inr (push_back NO_FALSE b c)"
| "cs_apply NO_FALSE PopBack c = pop_back NO_FALSE c"
| "cs_apply NO_FALSE ToggleTop c = toggle_top NO_FALSE c"

fun cs_run :: "int \<Rightarrow> cs_op list \<Rightarrow> ConditionStack \<Rightarrow> error + ConditionStack" where
  "cs_run NO_FALSE [] c = Inr c"
| "cs_run NO_FALSE (opn # ops) c =
     (case cs_apply NO_FALSE opn c of Inl e \<Rightarrow> Inl e | Inr c' \<Rightarrow> cs_run NO_FALSE ops c')"

definition cs_inv :: "int \<Rightarrow> ConditionStack \<Rightarrow> bool" where
  "cs_inv NO_FALSE c =
     (first_false_position c = NO_FALSE \<or> first_false_position c < stack_size c)"

section \<open>Numeric stack encoding (\<open>CScriptNum\<close>, script.py)\<close>

datatype CScriptNum = CScriptNum (num_value: int)

text \<open>
  The bounds of \<open>static_types\<close>, a module outside the files at hand: the signed 64-bit
  boundary the specification names.
\<close>

definition min_int64 :: int where
  "min_int64 = - (2 ^ 63)"

definition max_int64 :: int where
  "max_int64 = 2 ^ 63 - 1"

text \<open>
  The \<open>while absvalue\<close> loop of \<open>encode\<close>: the bytes appended to \<open>r\<close>, in order.
  \<open>absvalue\<close> is never negative there.
\<close>

function encode_loop :: "nat \<Rightarrow> bytes" where
  "encode_loop absvalue =
     (if absvalue = 0 then []
      else word_of_nat (absvalue AND 0xFF) # encode_loop (drop_bit 8 absvalue))"
  by pat_completeness auto
termination
  by (relation "measure id") (auto simp: drop_bit_eq_div)

text \<open>\<open>bytes([len(r)])\<close> raises \<open>ValueError\<close> when \<open>len(r)\<close> is not in \<open>range(256)\<close>.\<close>

definition encode :: "CScriptNum \<Rightarrow> error + bytes" where
  "encode obj =
     (if num_value obj = 0 then Inr []
      else
        let neg = num_value obj < 0;
            absvalue = (if neg then - num_value obj else num_value obj);
            r = encode_loop (nat absvalue);
            r1 = (if last r AND 0x80 \<noteq> 0 then r @ [if neg then 0x80 else 0]
                  else if neg then r[length r - 1 := last r OR 0x80]
                  else r)
        in if length r1 < 256 then Inr (word_of_nat (length r1) # r1) else Inl ValueError)"

text \<open>The \<open>for i, byte in enumerate(value)\<close> loop of \<open>decode\<close>.\<close>

fun decode_loop :: "nat \<Rightarrow> bytes \<Rightarrow> int \<Rightarrow> int" where
  "decode_loop i [] result = result"
| "decode_loop i (byte # rest) result =
     decode_loop (i + 1) rest (result OR push_bit (8 * i) (uint byte))"

definition decode :: "bytes \<Rightarrow> int" where
  "decode vch =
     (let val = drop 1 vch
      in if length val = 0 then 0
         else
           let result = decode_loop 0 val 0
           in if last val \<ge> 0x80
              then let num_mask = drop_bit 1 (2 ^ (length val * 8) - 1)
                   in (result AND num_mask) * (- 1)
              else result)"

text \<open>\<open>CScriptNum.__sub__\<close>: the assertion is the overflow check.\<close>

definition sub :: "CScriptNum \<Rightarrow> CScriptNum \<Rightarrow> error + CScriptNum" where
  "sub self other =
     (let rhs = num_value other
      in if rhs = 0
            \<or> (rhs > 0 \<and> num_value self \<ge> min_int64 + rhs)
            \<or> (rhs < 0 \<and> num_value self \<le> max_int64 + rhs)
         then Inr (CScriptNum (num_value self - rhs))
         else Inl AssertionError)"

section \<open>Opcodes (\<open>CScriptOp\<close>, script.py)\<close>

text \<open>A \<open>CScriptOp\<close> is an \<open>int\<close> subclass holding one byte value.\<close>

type_synonym CScriptOp = byte

abbreviation OP_0 :: CScriptOp where "OP_0 \<equiv> 0x00"
abbreviation OP_PUSHDATA1 :: CScriptOp where "OP_PUSHDATA1 \<equiv> 0x4C"
abbreviation OP_PUSHDATA2 :: CScriptOp where "OP_PUSHDATA2 \<equiv> 0x4D"
abbreviation OP_PUSHDATA4 :: CScriptOp where "OP_PUSHDATA4 \<equiv> 0x4E"
abbreviation OP_1NEGATE :: CScriptOp where "OP_1NEGATE \<equiv> 0x4F"
abbreviation OP_1 :: CScriptOp where "OP_1 \<equiv> 0x51"
abbreviation OP_16 :: CScriptOp where "OP_16 \<equiv> 0x60"
abbreviation OP_IF :: CScriptOp where "OP_IF \<equiv> 0x63"
abbreviation OP_NOTIF :: CScriptOp where "OP_NOTIF \<equiv> 0x64"
abbreviation OP_ELSE :: CScriptOp where "OP_ELSE \<equiv> 0x67"
abbreviation OP_ENDIF :: CScriptOp where "OP_ENDIF \<equiv> 0x68"
abbreviation OP_VERIFY :: CScriptOp where "OP_VERIFY \<equiv> 0x69"
abbreviation OP_IFDUP :: CScriptOp where "OP_IFDUP \<equiv> 0x73"
abbreviation OP_DROP :: CScriptOp where "OP_DROP \<equiv> 0x75"
abbreviation OP_DUP :: CScriptOp where "OP_DUP \<equiv> 0x76"
abbreviation OP_EQUALVERIFY :: CScriptOp where "OP_EQUALVERIFY \<equiv> 0x88"
abbreviation OP_1SUB :: CScriptOp where "OP_1SUB \<equiv> 0x8C"
abbreviation OP_WITHIN :: CScriptOp where "OP_WITHIN \<equiv> 0xA5"
abbreviation OP_SHA256 :: CScriptOp where "OP_SHA256 \<equiv> 0xA8"
abbreviation OP_CHECKSIG :: CScriptOp where "OP_CHECKSIG \<equiv> 0xAC"
abbreviation OP_CHECKSIGVERIFY :: CScriptOp where "OP_CHECKSIGVERIFY \<equiv> 0xAD"
abbreviation OP_CHECKMULTISIG :: CScriptOp where "OP_CHECKMULTISIG \<equiv> 0xAE"
abbreviation OP_CHECKMULTISIGVERIFY :: CScriptOp where "OP_CHECKMULTISIGVERIFY \<equiv> 0xAF"
abbreviation OP_CHECKLOCKTIMEVERIFY :: CScriptOp where "OP_CHECKLOCKTIMEVERIFY \<equiv> 0xB1"
abbreviation OP_CHECKSEQUENCEVERIFY :: CScriptOp where "OP_CHECKSEQUENCEVERIFY \<equiv> 0xB2"
abbreviation OP_CHECKTEMPLATEVERIFY :: CScriptOp where "OP_CHECKTEMPLATEVERIFY \<equiv> 0xB3"
abbreviation OP_INVALIDOPCODE :: CScriptOp where "OP_INVALIDOPCODE \<equiv> 0xFF"

text \<open>\<open>struct.pack\<close> with the formats \<open><H\<close> and \<open><I\<close>: little-endian, 2 and 4 bytes.\<close>

definition pack_H :: "nat \<Rightarrow> bytes" where
  "pack_H n = [word_of_nat (n mod 256), word_of_nat (n div 256 mod 256)]"

definition pack_I :: "nat \<Rightarrow> bytes" where
  "pack_I n = [word_of_nat (n mod 256), word_of_nat (n div 256 mod 256),
               word_of_nat (n div 65536 mod 256), word_of_nat (n div 16777216 mod 256)]"

definition encode_op_pushdata :: "bytes \<Rightarrow> error + bytes" where
  "encode_op_pushdata d =
     (if length d < 0x4C then Inr ([] @ [word_of_nat (length d)] @ d)
      else if length d \<le> 0xFF then Inr ([0x4C] @ [word_of_nat (length d)] @ d)
      else if length d \<le> 0xFFFF then Inr ([0x4D] @ pack_H (length d) @ d)
      else if length d \<le> 0xFFFFFFFF then Inr ([0x4E] @ pack_I (length d) @ d)
      else Inl ValueError)"

definition encode_op_n :: "int \<Rightarrow> error + CScriptOp" where
  "encode_op_n n =
     (if \<not> (0 \<le> n \<and> n \<le> 16) then Inl ValueError
      else if n = 0 then Inr OP_0
      else Inr (word_of_int (uint OP_1 + n - 1)))"

definition decode_op_n :: "CScriptOp \<Rightarrow> error + int" where
  "decode_op_n self =
     (if self = OP_0 then Inr 0
      else if \<not> (self = OP_0 \<or> (OP_1 \<le> self \<and> self \<le> OP_16)) then Inl ValueError
      else Inr (uint self - uint OP_1 + 1))"

definition is_small_int :: "CScriptOp \<Rightarrow> bool" where
  "is_small_int self = ((0x51 \<le> self \<and> self \<le> 0x60) \<or> self = 0)"

section \<open>Script buffer (\<open>CScript\<close>, script.py)\<close>

text \<open>
  What a caller can hand to \<open>CScript\<close>: an opcode, a \<open>CScriptNum\<close>, a native integer,
  an existing script, or raw bytes.
\<close>

datatype coercable =
    COp CScriptOp
  | CNum CScriptNum
  | CInt int
  | CScr bytes
  | CBytes bytes

text \<open>
  \<open>bignum.bn2vch\<close> lies outside the files at hand; \<open>coerce_instance\<close> takes it as the
  parameter \<open>bn2vch\<close>.
\<close>

definition coerce_instance :: "(int \<Rightarrow> bytes) \<Rightarrow> coercable \<Rightarrow> error + bytes" where
  "coerce_instance bn2vch other =
     (case other of
        COp c \<Rightarrow> Inr [c]
      | CNum n \<Rightarrow> (if num_value n = 0 then Inr [OP_0] else encode n)
      | CInt k \<Rightarrow>
          (if 0 \<le> k \<and> k \<le> 16
           then (case encode_op_n k of Inl e \<Rightarrow> Inl e | Inr c \<Rightarrow> Inr [c])
           else if k = - 1 then Inr [OP_1NEGATE]
           else encode_op_pushdata (bn2vch k))
      | CScr s \<Rightarrow> Inr s
      | CBytes b \<Rightarrow> encode_op_pushdata b)"

text \<open>\<open>CScript.__new__\<close> on an iterable: the coerced values joined, left to right.\<close>

fun build :: "(int \<Rightarrow> bytes) \<Rightarrow> coercable list \<Rightarrow> error + bytes" where
  "build bn2vch [] = Inr []"
| "build bn2vch (inst # rest) =
     (case coerce_instance bn2vch inst of
        Inl e \<Rightarrow> Inl e
      | Inr b \<Rightarrow> (case build bn2vch rest of Inl e \<Rightarrow> Inl e | Inr bs \<Rightarrow> Inr (b @ bs)))"

text \<open>
  A generator is modelled by what it yields before it stops, and the exception that
  stopped it, if any.
\<close>

type_synonym 'a generator = "'a list \<times> error option"

definition yield :: "'a \<Rightarrow> 'a generator \<Rightarrow> 'a generator" where
  "yield x g = (x # fst g, snd g)"

type_synonym raw_item = "CScriptOp \<times> bytes option \<times> nat"

text \<open>
  The length header of a push in \<open>raw_iter\<close>: \<open>datasize\<close> and the index after the header,
  or the exception of a missing length.
\<close>

definition pushdata_header :: "bytes \<Rightarrow> CScriptOp \<Rightarrow> nat \<Rightarrow> error + (nat \<times> nat)" where
  "pushdata_header self opcode i =
     (if opcode < OP_PUSHDATA1 then Inr (unat opcode, i)
      else if opcode = OP_PUSHDATA1 then
        (if i \<ge> length self then Inl CScriptInvalidError
         else Inr (unat (self ! i), i + 1))
      else if opcode = OP_PUSHDATA2 then
        (if i + 1 \<ge> length self then Inl CScriptInvalidError
         else Inr (unat (self ! i) + push_bit 8 (unat (self ! (i + 1))), i + 2))
      else if opcode = OP_PUSHDATA4 then
        (if i + 3 \<ge> length self then Inl CScriptInvalidError
         else Inr (unat (self ! i) + push_bit 8 (unat (self ! (i + 1)))
                   + push_bit 16 (unat (self ! (i + 2))) + push_bit 24 (unat (self ! (i + 3))),
                   i + 4))
      else Inl AssertionError)"

function raw_iter_from :: "bytes \<Rightarrow> nat \<Rightarrow> raw_item generator" where
  "raw_iter_from self i =
     (if \<not> i < length self then ([], None)
      else if self ! i > OP_PUSHDATA4
      then yield (self ! i, None, i) (raw_iter_from self (i + 1))
      else
        (case pushdata_header self (self ! i) (i + 1) of
           Inl e \<Rightarrow> ([], Some e)
         | Inr (datasize, j) \<Rightarrow>
             (if length (take datasize (drop j self)) < datasize
              then ([], Some (CScriptTruncatedPushDataError (take datasize (drop j self))))
              else yield (self ! i, Some (take datasize (drop j self)), i)
                     (raw_iter_from self (j + datasize)))))"
  by pat_completeness auto
termination
  by (relation "measure (\<lambda>(self, i). length self - i)")
     (auto simp: pushdata_header_def split: if_splits)

definition raw_iter :: "bytes \<Rightarrow> raw_item generator" where
  "raw_iter self = raw_iter_from self 0"

text \<open>What cooked iteration yields: raw bytes, a native integer or an opcode.\<close>

datatype item = ItemBytes bytes | ItemInt int | ItemOp CScriptOp

fun cook :: "raw_item list \<Rightarrow> error option \<Rightarrow> item generator" where
  "cook [] e = ([], e)"
| "cook ((opcode, data, sop_idx) # rest) e =
     (case data of
        Some d \<Rightarrow> yield (ItemBytes d) (cook rest e)
      | None \<Rightarrow>
          (if is_small_int opcode
           then (case decode_op_n opcode of
                   Inl err \<Rightarrow> ([], Some err)
                 | Inr n \<Rightarrow> yield (ItemInt n) (cook rest e))
           else yield (ItemOp opcode) (cook rest e)))"

definition iter :: "bytes \<Rightarrow> item generator" where
  "iter self = cook (fst (raw_iter self)) (snd (raw_iter self))"

section \<open>Script analyzers (script.py)\<close>

text \<open>A \<open>for\<close> loop over yielded items whose body can raise.\<close>

fun for_loop :: "('a \<Rightarrow> 's \<Rightarrow> error + 's) \<Rightarrow> 'a list \<Rightarrow> 's \<Rightarrow> error + 's" where
  "for_loop body [] st = Inr st"
| "for_loop body (x # xs) st =
     (case body x st of Inl e \<Rightarrow> Inl e | Inr st' \<Rightarrow> for_loop body xs st')"

text \<open>The loop body of \<open>GetSigOpCount\<close> on the state \<open>(n, lastOpcode)\<close>.\<close>

definition sigop_body :: "bool \<Rightarrow> raw_item \<Rightarrow> int \<times> CScriptOp \<Rightarrow> error + (int \<times> CScriptOp)" where
  "sigop_body fAccurate it st =
     (case it of (opcode, data, sop_idx) \<Rightarrow>
      case st of (n, lastOpcode) \<Rightarrow>
        if opcode = OP_CHECKSIG \<or> opcode = OP_CHECKSIGVERIFY then Inr (n + 1, opcode)
        else if opcode = OP_CHECKMULTISIG \<or> opcode = OP_CHECKMULTISIGVERIFY then
          (if fAccurate \<and> (OP_1 \<le> lastOpcode \<and> lastOpcode \<le> OP_16)
           then (case decode_op_n opcode of
                   Inl e \<Rightarrow> Inl e
                 | Inr k \<Rightarrow> Inr (n + k, opcode))
           else Inr (n + 20, opcode))
        else Inr (n, opcode))"

definition GetSigOpCount :: "bytes \<Rightarrow> bool \<Rightarrow> error + int" where
  "GetSigOpCount self fAccurate =
     (case for_loop (sigop_body fAccurate) (fst (raw_iter self)) (0, OP_INVALIDOPCODE) of
        Inl e \<Rightarrow> Inl e
      | Inr (n, lastOpcode) \<Rightarrow>
          (case snd (raw_iter self) of Some e \<Rightarrow> Inl e | None \<Rightarrow> Inr n))"

text \<open>The Python slice \<open>s[a:b]\<close> for \<open>0 \<le> a\<close>, \<open>0 \<le> b\<close>.\<close>

definition slice :: "'a list \<Rightarrow> nat \<Rightarrow> nat \<Rightarrow> 'a list" where
  "slice s a b = take (b - a) (drop a s)"

text \<open>The loop body of \<open>FindAndDelete\<close> on the state \<open>(r, last_sop_idx, skip)\<close>.\<close>

definition fad_body :: "bytes \<Rightarrow> bytes \<Rightarrow> raw_item \<Rightarrow> bytes \<times> nat \<times> bool \<Rightarrow> bytes \<times> nat \<times> bool" where
  "fad_body script sig it st =
     (case it of (opcode, data, sop_idx) \<Rightarrow>
      case st of (r, last_sop_idx, skip) \<Rightarrow>
        let r1 = (if \<not> skip then r @ slice script last_sop_idx sop_idx else r)
        in (r1, sop_idx, slice script sop_idx (sop_idx + length sig) = sig))"

definition FindAndDelete :: "bytes \<Rightarrow> bytes \<Rightarrow> error + bytes" where
  "FindAndDelete script sig =
     (case foldl (\<lambda>st it. fad_body script sig it st) ([], 0, True) (fst (raw_iter script)) of
        (r, last_sop_idx, skip) \<Rightarrow>
          (case snd (raw_iter script) of
             Some e \<Rightarrow> Inl e
           | None \<Rightarrow> Inr (if \<not> skip then r @ drop last_sop_idx script else r)))"

section \<open>Execution engine (opcodes.py)\<close>

definition ONE_enc :: "error + bytes" where
  "ONE_enc = encode (CScriptNum 1)"

definition ZERO_enc :: "error + bytes" where
  "ZERO_enc = encode (CScriptNum 0)"

text \<open>The loop of \<open>bool_of_stack_item\<close>, at index \<open>idx\<close> of a value of length \<open>n\<close>.\<close>

fun bool_of_stack_item_from :: "nat \<Rightarrow> nat \<Rightarrow> bytes \<Rightarrow> bool" where
  "bool_of_stack_item_from n idx [] = False"
| "bool_of_stack_item_from n idx (char # rest) =
     (if char \<noteq> 0
      then (if int idx = int n - 1 \<and> char = 0x80 then False else True)
      else bool_of_stack_item_from n (idx + 1) rest)"

definition bool_of_stack_item :: "bytes \<Rightarrow> bool" where
  "bool_of_stack_item v = bool_of_stack_item_from (length v) 0 v"

type_synonym outcome = "error + (bool \<times> bytes list \<times> ConditionStack)"

text \<open>
  The value stack is a Python list: \<open>append\<close> adds at the end, \<open>pop\<close> takes from the end.
  An outcome is the exception raised, or the returned flag with the stack and the
  tracker as the call left them.
\<close>

definition push_encoded :: "error + bytes \<Rightarrow> bytes list \<Rightarrow> ConditionStack \<Rightarrow> outcome" where
  "push_encoded enc stack hb =
     (case enc of Inl e \<Rightarrow> Inl e | Inr b \<Rightarrow> Inr (True, stack @ [b], hb))"

text \<open>The \<open>isinstance(op, CScriptOp)\<close> block of \<open>handle\<close>: one arm for each opcode.\<close>

definition handle_opcode :: "int \<Rightarrow> CScriptOp \<Rightarrow> bool \<Rightarrow> bytes list \<Rightarrow> ConditionStack \<Rightarrow> outcome" where
  "handle_opcode NO_FALSE op should_execute stack hb =
     (if op = OP_IF \<or> op = OP_NOTIF then
        (if should_execute then
           (if length stack < 1 then Inr (False, stack, hb)
            else
              let cond = last stack; stack1 = butlast stack
              in if length cond > 1 then Inr (False, stack1, hb)
                 else if length cond = 1 \<and> cond ! 0 \<noteq> 1 then Inr (False, stack1, hb)
                 else
                   let branch_value = bool_of_stack_item cond;
                       branch_value1 = (if op = OP_NOTIF then \<not> branch_value else branch_value)
                   in Inr (True, stack1, push_back NO_FALSE branch_value1 hb))
         else Inr (True, stack, push_back NO_FALSE False hb))
      else if op = OP_ELSE then
        (if empty_cs hb then Inr (False, stack, hb)
         else (case toggle_top NO_FALSE hb of
                 Inl e \<Rightarrow> Inl e
               | Inr hb1 \<Rightarrow> Inr (True, stack, hb1)))
      else if op = OP_ENDIF then
        (if empty_cs hb then Inr (False, stack, hb)
         else (case pop_back NO_FALSE hb of
                 Inl e \<Rightarrow> Inl e
               | Inr hb1 \<Rightarrow> Inr (True, stack, hb1)))
      else if \<not> should_execute then Inr (True, stack, hb)
      else if op = OP_SHA256 then
        (if length stack < 1 then Inr (False, stack, hb) else Inr (True, stack, hb))
      else if op = OP_1SUB then
        (if length stack < 1 then Inr (False, stack, hb)
         else
           let num = decode (last stack) - 1
           in push_encoded (encode (CScriptNum num)) (butlast stack) hb)
      else if op = OP_WITHIN then
        (if length stack < 3 then Inr (False, stack, hb)
         else
           let upper = decode (last stack);
               lower = decode (last (butlast stack));
               num = decode (last (butlast (butlast stack)));
               ret = (lower \<le> num \<and> num < upper)
           in Inr (True, butlast (butlast (butlast stack))
                           @ [if ret then replicate 1 0 else replicate 0 0], hb))
      else if op = OP_0 then push_encoded ZERO_enc stack hb
      else if op = OP_1 then push_encoded ONE_enc stack hb
      else if op = OP_DROP then
        (if length stack < 1 then Inr (False, stack, hb) else Inr (True, butlast stack, hb))
      else if op = OP_IFDUP then
        (if length stack < 1 then Inr (False, stack, hb)
         else
           let v = last stack; b = bool_of_stack_item v
           in if b then Inr (True, stack @ [v], hb) else Inr (True, stack, hb))
      else if op = OP_DUP then
        (if length stack < 1 then Inr (False, stack, hb)
         else Inr (True, stack @ [last stack], hb))
      else if op = OP_CHECKSIGVERIFY then
        (if length stack < 2 then Inr (False, stack, hb)
         else Inr (True, butlast (butlast stack), hb))
      else if op = OP_CHECKTEMPLATEVERIFY then
        (if length stack < 1 then Inr (False, stack, hb) else Inr (True, stack, hb))
      else if op = OP_CHECKLOCKTIMEVERIFY then
        (if length stack < 1 then Inr (False, stack, hb) else Inr (True, stack, hb))
      else if op = OP_CHECKSEQUENCEVERIFY then
        (if length stack < 1 then Inr (False, stack, hb) else Inr (True, stack, hb))
      else if op = OP_EQUALVERIFY then
        (if length stack < 2 then Inr (False, stack, hb)
         else
           let ach = last stack; bch = last (butlast stack)
           in if ach \<noteq> bch then Inr (False, butlast (butlast stack), hb)
              else Inr (True, butlast (butlast stack), hb))
      else if op = OP_VERIFY then
        (if length stack < 1 then Inr (False, stack, hb)
         else
           let bch = last stack
           in if \<not> bool_of_stack_item bch then Inr (False, butlast stack, hb)
              else Inr (True, butlast stack, hb))
      else Inl ValueError)"

text \<open>
  \<open>handle\<close> tests \<open>isinstance(op, bytes)\<close>, then \<open>isinstance(op, int)\<close>, then
  \<open>isinstance(op, CScriptOp)\<close>, each with a plain \<open>if\<close>. \<open>CScriptOp\<close> subclasses \<open>int\<close>,
  so an opcode passes the second test as well as the third.
\<close>

definition handle :: "int \<Rightarrow> item \<Rightarrow> bytes list \<Rightarrow> ConditionStack \<Rightarrow> outcome" where
  "handle NO_FALSE op stack handle_branch =
     (let should_execute = all_true NO_FALSE handle_branch;
          stack1 = (case op of ItemBytes b \<Rightarrow> (if should_execute then stack @ [b] else stack)
                    | _ \<Rightarrow> stack);
          pushed = (case op of
                      ItemBytes b \<Rightarrow> Inr stack1
                    | ItemInt n \<Rightarrow>
                        (if should_execute
                         then (case encode (CScriptNum n) of
                                 Inl e \<Rightarrow> Inl e | Inr b \<Rightarrow> Inr (stack1 @ [b]))
                         else Inr stack1)
                    | ItemOp c \<Rightarrow>
                        (if should_execute
                         then (case encode (CScriptNum (uint c)) of
                                 Inl e \<Rightarrow> Inl e | Inr b \<Rightarrow> Inr (stack1 @ [b]))
                         else Inr stack1))
      in case pushed of
           Inl e \<Rightarrow> Inl e
         | Inr stack2 \<Rightarrow>
             (case op of
                ItemOp c \<Rightarrow> handle_opcode NO_FALSE c should_execute stack2 handle_branch
              | _ \<Rightarrow> Inr (True, stack2, handle_branch)))"

text \<open>
  The loop of \<open>interpret\<close>: a false return or a \<open>ConditionStackError\<close> ends it with
  \<open>False\<close>; any other exception leaves \<open>interpret\<close>.
\<close>

fun interpret_loop :: "int \<Rightarrow> item list \<Rightarrow> bytes list \<Rightarrow> ConditionStack \<Rightarrow> error + (bool \<times> bytes list \<times> ConditionStack)" where
  "interpret_loop NO_FALSE [] stack hb = Inr (True, stack, hb)"
| "interpret_loop NO_FALSE (op # ops) stack hb =
     (case handle NO_FALSE op stack hb of
        Inl ConditionStackError \<Rightarrow> Inr (False, stack, hb)
      | Inl e \<Rightarrow> Inl e
      | Inr (ok, stack1, hb1) \<Rightarrow>
          (if \<not> ok then Inr (False, stack1, hb1)
           else interpret_loop NO_FALSE ops stack1 hb1))"

text \<open>
  \<open>interpret_on\<close> runs the loop from a given stack; \<open>interpret_script\<close> is the
  source's \<open>interpret\<close>, which starts from the empty stack.
\<close>

definition interpret_on :: "int \<Rightarrow> bytes list \<Rightarrow> bytes \<Rightarrow> error + bool" where
  "interpret_on NO_FALSE stack s =
     (case interpret_loop NO_FALSE (fst (iter s)) stack (cs_init NO_FALSE) of
        Inl e \<Rightarrow> Inl e
      | Inr (ok, stack1, hb1) \<Rightarrow>
          (if \<not> ok then Inr False
           else (case snd (iter s) of Some e \<Rightarrow> Inl e | None \<Rightarrow> Inr True)))"

definition interpret_script :: "int \<Rightarrow> bytes \<Rightarrow> error + bool" where
  "interpret_script NO_FALSE s = interpret_on NO_FALSE [] s"

section \<open>Instruction extents\<close>

text \<open>
  The source bytes of each yielded instruction, with its offset: from the instruction's
  offset up to the offset of the next instruction, or to the end of the script for the
  last one.
\<close>

fun segments :: "bytes \<Rightarrow> raw_item list \<Rightarrow> (nat \<times> bytes) list" where
  "segments script [] = []"
| "segments script [(opcode, data, i)] = [(i, drop i script)]"
| "segments script ((opcode, data, i) # (opcode', data', j) # rest) =
     (i, slice script i j) # segments script ((opcode', data', j) # rest)"

text \<open>The pattern stands at offset \<open>i\<close>: the next \<open>len(sig)\<close> bytes of the script equal it.\<close>

abbreviation matches :: "bytes \<Rightarrow> bytes \<Rightarrow> nat \<Rightarrow> bool" where
  "matches script sig i \<equiv> slice script i (i + length sig) = sig"

definition retained :: "bytes \<Rightarrow> bytes \<Rightarrow> (nat \<times> bytes) list \<Rightarrow> (nat \<times> bytes) list" where
  "retained script sig segs = filter (\<lambda>(i, seg). \<not> matches script sig i) segs"

text \<open>Yielded instructions with their offsets moved by \<open>n\<close>.\<close>

definition shift_items :: "nat \<Rightarrow> raw_item list \<Rightarrow> raw_item list" where
  "shift_items n its = map (\<lambda>(opc, d, k). (opc, d, n + k)) its"

section \<open>Truncated pushes\<close>

text \<open>
  A byte string that starts a push instruction and ends before the instruction does: the
  length bytes of \<open>PUSHDATA1\<close>, \<open>PUSHDATA2\<close> or \<open>PUSHDATA4\<close> are not all there, or there are
  fewer payload bytes than the (inline or little-endian) length declares. The result is
  the exception the specification gives for it: the plain invalid-script error for a
  missing length, the truncation error carrying the payload bytes present otherwise;
  \<open>None\<close> when the bytes are not a truncated push.
\<close>

fun truncated_push :: "bytes \<Rightarrow> error option" where
  "truncated_push [] = None"
| "truncated_push (opc # rest) =
     (if opc < OP_PUSHDATA1 then
        (if length rest < unat opc then Some (CScriptTruncatedPushDataError rest) else None)
      else if opc = OP_PUSHDATA1 then
        (case rest of
           n # d \<Rightarrow>
             if length d < unat n then Some (CScriptTruncatedPushDataError d) else None
         | _ \<Rightarrow> Some CScriptInvalidError)
      else if opc = OP_PUSHDATA2 then
        (case rest of
           n0 # n1 # d \<Rightarrow>
             if length d < unat n0 + 256 * unat n1
             then Some (CScriptTruncatedPushDataError d) else None
         | _ \<Rightarrow> Some CScriptInvalidError)
      else if opc = OP_PUSHDATA4 then
        (case rest of
           n0 # n1 # n2 # n3 # d \<Rightarrow>
             if length d < unat n0 + 256 * unat n1 + 65536 * unat n2 + 16777216 * unat n3
             then Some (CScriptTruncatedPushDataError d) else None
         | _ \<Rightarrow> Some CScriptInvalidError)
      else None)"

section \<open>Branch-state tracker: the marker invariant\<close>

lemma cs_inv_init: "cs_inv nf (cs_init nf)"
  by (simp add: cs_inv_def cs_init_def)

lemma cs_inv_push_back: "cs_inv nf c \<Longrightarrow> cs_inv nf (push_back nf b c)"
  by (auto simp: cs_inv_def push_back_def Let_def)

lemma cs_inv_pop_back: "cs_inv nf c \<Longrightarrow> pop_back nf c = Inr c' \<Longrightarrow> cs_inv nf c'"
  by (auto simp: cs_inv_def pop_back_def Let_def split: if_splits)

lemma cs_inv_toggle_top: "cs_inv nf c \<Longrightarrow> toggle_top nf c = Inr c' \<Longrightarrow> cs_inv nf c'"
  by (auto simp: cs_inv_def toggle_top_def split: if_splits)

lemma cs_inv_apply: "cs_inv nf c \<Longrightarrow> cs_apply nf opn c = Inr c' \<Longrightarrow> cs_inv nf c'"
  by (cases opn) (auto intro: cs_inv_push_back cs_inv_pop_back cs_inv_toggle_top)

lemma cs_inv_run: "cs_inv nf c \<Longrightarrow> cs_run nf ops c = Inr c' \<Longrightarrow> cs_inv nf c'"
proof (induction ops arbitrary: c)
  case Nil
  then show ?case by simp
next
  case (Cons opn ops)
  from Cons.prems(2) obtain c1 where
    step: "cs_apply nf opn c = Inr c1" and rest: "cs_run nf ops c1 = Inr c'"
    by (auto split: sum.splits)
  from Cons.prems(1) step have "cs_inv nf c1" by (rule cs_inv_apply)
  then show ?case using rest by (rule Cons.IH)
qed

text \<open>
  C9. Every tracker state reached from the initial state (depth 0, marker at the sentinel)
  by a sequence of \<open>push_back\<close>, \<open>pop_back\<close> and \<open>toggle_top\<close> calls none of which raises
  has its first-false marker either at the sentinel or strictly below the depth. This
  holds whatever value the sentinel has.
\<close>

theorem condition_stack_marker_invariant:
  "cs_run NO_FALSE ops (cs_init NO_FALSE) = Inr c
   \<Longrightarrow> first_false_position c = NO_FALSE \<or> first_false_position c < stack_size c"
  using cs_inv_run [OF cs_inv_init] by (simp add: cs_inv_def)

theorem condition_stack_marker_invariant_witness:
  "cs_run 4294967295 [PushBack True, PushBack False, ToggleTop, PushBack False, PopBack]
       (cs_init 4294967295)
     = Inr \<lparr> stack_size = 2, first_false_position = 4294967295 \<rparr>
   \<and> (first_false_position \<lparr> stack_size = 2, first_false_position = 4294967295 \<rparr> = 4294967295
      \<or> first_false_position \<lparr> stack_size = 2, first_false_position = 4294967295 \<rparr>
          < stack_size \<lparr> stack_size = 2, first_false_position = 4294967295 \<rparr>)"
proof -
  have run: "cs_run 4294967295 [PushBack True, PushBack False, ToggleTop, PushBack False, PopBack]
       (cs_init 4294967295)
     = Inr \<lparr> stack_size = 2, first_false_position = 4294967295 \<rparr>"
    by (simp add: cs_init_def push_back_def pop_back_def toggle_top_def Let_def)
  from condition_stack_marker_invariant [OF run] run show ?thesis by simp
qed

section \<open>Execution engine: item handling\<close>

declare encode_loop.simps [simp del]
declare raw_iter_from.simps [simp del]

lemmas engine_defs =
  handle_def handle_opcode_def push_encoded_def all_true_def cs_init_def push_back_def
  encode_def decode_def Let_def bool_of_stack_item_def empty_cs_def encode_loop.simps

lemmas iter_defs =
  iter_def raw_iter_def raw_iter_from.simps yield_def is_small_int_def pushdata_header_def
  decode_op_n_def

text \<open>
  C1. The claim: when execution is active only a raw-bytes item or a decoded small integer
  is pushed implicitly, so that \<open>[DUP, EQUALVERIFY]\<close> on a one-item stack succeeds. The
  code at that input: \<open>handle\<close> on \<open>OP_DUP\<close> with the stack \<open>[b"\x01"]\<close> first appends the
  numeric encoding of the opcode's own byte value \<open>0x76\<close> and then duplicates that;
  \<open>OP_EQUALVERIFY\<close> likewise appends the encoding of \<open>0x88\<close>, compares it with the
  encoding of \<open>0x76\<close> and returns \<open>False\<close>.
\<close>

theorem dup_equalverify_opcode_pushed:
  "handle 4294967295 (ItemOp OP_DUP) [[1]] (cs_init 4294967295)
     = Inr (True, [[1], [1, 0x76], [1, 0x76]], cs_init 4294967295)
   \<and> handle 4294967295 (ItemOp OP_EQUALVERIFY) [[1], [1, 0x76], [1, 0x76]] (cs_init 4294967295)
     = Inr (False, [[1], [1, 0x76]], cs_init 4294967295)
   \<and> iter [0x76, 0x88] = ([ItemOp OP_DUP, ItemOp OP_EQUALVERIFY], None)
   \<and> interpret_on 4294967295 [[1]] [0x76, 0x88] = Inr False"
proof -
  have it: "iter [0x76, 0x88] = ([ItemOp OP_DUP, ItemOp OP_EQUALVERIFY], None)"
    by (simp add: iter_defs)
  have dup: "handle 4294967295 (ItemOp OP_DUP) [[1]] (cs_init 4294967295)
     = Inr (True, [[1], [1, 0x76], [1, 0x76]], cs_init 4294967295)"
    by (simp add: engine_defs)
  have eqv: "handle 4294967295 (ItemOp OP_EQUALVERIFY) [[1], [1, 0x76], [1, 0x76]]
       (cs_init 4294967295)
     = Inr (False, [[1], [1, 0x76]], cs_init 4294967295)"
    by (simp add: engine_defs)
  have "interpret_on 4294967295 [[1]] [0x76, 0x88] = Inr False"
    by (simp add: interpret_on_def it dup eqv)
  with it dup eqv show ?thesis by simp
qed

text \<open>
  C5. The claim: an active \<open>IF\<close> pops the item the preceding instructions supplied, fails
  only on a non-minimal boolean, and pushes onto the tracker. The code at the stack
  \<open>[b"\x01"]\<close>, a minimal true: \<open>handle\<close> first appends the two-byte encoding of the
  opcode's byte value \<open>0x63\<close>, pops that as the condition, rejects it as longer than one
  byte and returns \<open>False\<close>; the supplied item stays on the stack and the tracker is not
  pushed. The script \<open>[push b"\x01", IF]\<close> therefore evaluates to false.
\<close>

theorem if_pops_own_opcode:
  "handle 4294967295 (ItemOp OP_IF) [[1]] (cs_init 4294967295)
     = Inr (False, [[1]], cs_init 4294967295)
   \<and> handle 4294967295 (ItemOp OP_NOTIF) [[]] (cs_init 4294967295)
     = Inr (False, [[]], cs_init 4294967295)
   \<and> interpret_script 4294967295 [1, 1, 0x63] = Inr False"
  by (simp add: interpret_script_def interpret_on_def iter_defs engine_defs)

text \<open>
  C3. The claim: the decrement aborts when \<open>n - 1\<close> would pass the signed 64-bit
  boundary. The code at a stack whose top item decodes to \<open>min_int64\<close>: \<open>handle\<close> returns
  \<open>True\<close>; it has decremented the implicitly pushed encoding of the opcode's byte value
  \<open>0x8C\<close> to 139 and left the item alone. The arm itself, entered with that item on top,
  subtracts on native integers and appends the encoding of \<open>min_int64 - 1\<close>. The checked
  subtraction \<open>CScriptNum.__sub__\<close> rejects the same operands, but the arm never calls it.
\<close>

theorem decrement_unchecked:
  "decode [9, 0, 0, 0, 0, 0, 0, 0, 0x80, 0x80] = min_int64
   \<and> handle 4294967295 (ItemOp OP_1SUB) [[9, 0, 0, 0, 0, 0, 0, 0, 0x80, 0x80]]
        (cs_init 4294967295)
     = Inr (True, [[9, 0, 0, 0, 0, 0, 0, 0, 0x80, 0x80], [2, 0x8B, 0]], cs_init 4294967295)
   \<and> handle_opcode 4294967295 OP_1SUB True [[9, 0, 0, 0, 0, 0, 0, 0, 0x80, 0x80]]
        (cs_init 4294967295)
     = Inr (True, [[9, 1, 0, 0, 0, 0, 0, 0, 0x80, 0x80]], cs_init 4294967295)
   \<and> decode [9, 1, 0, 0, 0, 0, 0, 0, 0x80, 0x80] = min_int64 - 1
   \<and> sub (CScriptNum min_int64) (CScriptNum 1) = Inl AssertionError"
  by (simp add: engine_defs min_int64_def max_int64_def sub_def)

lemma within_top_after_handle:
  assumes "all_true NO_FALSE hb" and "2 \<le> length stack"
  shows "\<exists>rest r. handle NO_FALSE (ItemOp OP_WITHIN) stack hb = Inr (True, rest @ [r], hb)
           \<and> (r = [0] \<or> r = []) \<and> \<not> bool_of_stack_item r"
  using assms by (simp add: engine_defs)



section \<open>Script analyzers: signature-operation count\<close>

text \<open>
  C2. The claim: on \<open>[push 2, CHECKMULTISIG]\<close> the counter returns 2 in accurate mode and
  20 otherwise. The code at the script \<open>0x52 0xAE\<close>: in accurate mode it calls
  \<open>decode_op_n\<close> on the multi-signature opcode itself, not on the preceding opcode, and
  that raises \<open>ValueError\<close>; in non-accurate mode it returns 20.
\<close>

theorem sigop_count_accurate_raises:
  "GetSigOpCount [0x52, 0xAE] True = Inl ValueError
   \<and> GetSigOpCount [0x52, 0xAE] False = Inr 20
   \<and> decode_op_n OP_CHECKMULTISIG = Inl ValueError
   \<and> decode_op_n 0x52 = Inr 2"
  by (simp add: GetSigOpCount_def sigop_body_def iter_defs)

section \<open>Raw iteration: one step\<close>

lemma slice_append_drop: "i \<le> j \<Longrightarrow> slice s i j @ drop j s = drop i s"
proof -
  assume "i \<le> j"
  then have "drop j s = drop (j - i) (drop i s)" by simp
  then show ?thesis unfolding slice_def by (simp only: append_take_drop_id)
qed

lemma pushdata_header_bound:
  "pushdata_header s opc i = Inr (d, j) \<Longrightarrow> i \<le> length s \<Longrightarrow> i \<le> j \<and> j \<le> length s"
  by (auto simp: pushdata_header_def split: if_splits)

lemma raw_iter_from_end: "\<not> i < length s \<Longrightarrow> raw_iter_from s i = ([], None)"
  by (simp add: raw_iter_from.simps)

lemma raw_iter_from_step:
  assumes "i < length s" and "raw_iter_from s i = (its, None)"
  shows "\<exists>d j its'. its = (s ! i, d, i) # its' \<and> i < j \<and> j \<le> length s
            \<and> raw_iter_from s j = (its', None)"
proof (cases "s ! i > OP_PUSHDATA4")
  case True
  with assms have "its = (s ! i, None, i) # fst (raw_iter_from s (i + 1))"
    and "snd (raw_iter_from s (i + 1)) = None"
    by (auto simp: raw_iter_from.simps [of s i] yield_def)
  with assms(1) show ?thesis
    by (intro exI [of _ None] exI [of _ "i + 1"] exI [of _ "fst (raw_iter_from s (i + 1))"])
       (auto simp: prod_eq_iff)
next
  case False
  with assms obtain d j where h: "pushdata_header s (s ! i) (i + 1) = Inr (d, j)"
    by (auto simp: raw_iter_from.simps [of s i] split: sum.splits)
  with assms(1) have jb: "i + 1 \<le> j" "j \<le> length s"
    using pushdata_header_bound [OF h] by auto
  from assms False h have len: "\<not> length (take d (drop j s)) < d"
    by (auto simp: raw_iter_from.simps [of s i] split: if_splits)
  with assms False h
  have its: "its = (s ! i, Some (take d (drop j s)), i) # fst (raw_iter_from s (j + d))"
    and e: "snd (raw_iter_from s (j + d)) = None"
    by (auto simp: raw_iter_from.simps [of s i] yield_def)
  from len jb have "j + d \<le> length s" by auto
  with jb its e show ?thesis
    by (intro exI [of _ "Some (take d (drop j s))"] exI [of _ "j + d"]
          exI [of _ "fst (raw_iter_from s (j + d))"])
       (auto simp: prod_eq_iff)
qed

section \<open>Script analyzers: pattern deletion\<close>

text \<open>The extents of the yielded instructions tile the script.\<close>

lemma segments_partition_from:
  "raw_iter_from s i = (its, None) \<Longrightarrow> i \<le> length s
   \<Longrightarrow> concat (map snd (segments s its)) = drop i s"
proof (induction "length s - i" arbitrary: i its rule: less_induct)
  case less
  show ?case
  proof (cases "i < length s")
    case False
    with less.prems show ?thesis by (simp add: raw_iter_from_end)
  next
    case True
    from raw_iter_from_step [OF True less.prems(1)] obtain d j its' where
      its: "its = (s ! i, d, i) # its'" and ij: "i < j" "j \<le> length s"
      and rest: "raw_iter_from s j = (its', None)" by blast
    from ij True have "length s - j < length s - i" by simp
    from less.hyps [OF this rest ij(2)]
    have ih: "concat (map snd (segments s its')) = drop j s" .
    show ?thesis
    proof (cases "j < length s")
      case False
      with rest have "its' = []" by (simp add: raw_iter_from_end)
      with its show ?thesis by simp
    next
      case jl: True
      from raw_iter_from_step [OF jl rest] obtain d' its'' where
        its': "its' = (s ! j, d', j) # its''" by blast
      have "slice s i j @ drop j s = drop i s"
        using ij by (simp add: slice_append_drop)
      with its its' ih show ?thesis by simp
    qed
  qed
qed

lemma segments_nonempty: "segments s (x # xs) \<noteq> []"
  by (cases x; cases xs) auto

lemma segments_last:
  "segments s (xs @ [(opc, d, i)]) = butlast (segments s (xs @ [(opc, d, i)])) @ [(i, drop i s)]"
proof (induction s xs rule: segments.induct)
  case (3 script opcode data i' opcode' data' j rest)
  then show ?case by (simp add: segments_nonempty)
qed auto

text \<open>
  The loop of \<open>FindAndDelete\<close>: after the instruction at \<open>i\<close> and those after it, \<open>r\<close> has
  gained the pending extent and every retained extent but the last, which is still
  pending.
\<close>

lemma fad_loop:
  "foldl (\<lambda>st it. fad_body script sig it st) (r, last_idx, skip) ((opc, d, i) # its)
   = (r @ (if \<not> skip then slice script last_idx i else [])
        @ concat (map snd (retained script sig (butlast (segments script ((opc, d, i) # its))))),
      snd (snd (last ((opc, d, i) # its))),
      matches script sig (snd (snd (last ((opc, d, i) # its)))))"
proof (induction its arbitrary: r last_idx skip opc d i)
  case Nil
  show ?case by (simp add: fad_body_def retained_def)
next
  case (Cons y its)
  obtain opc' d' j where y: "y = (opc', d', j)" by (cases y)
  define r1 where "r1 = r @ (if \<not> skip then slice script last_idx i else [])"
  let ?f = "\<lambda>st it. fad_body script sig it st"
  have "foldl ?f (r, last_idx, skip) ((opc, d, i) # y # its)
      = foldl ?f (r1, i, matches script sig i) ((opc', d', j) # its)"
    by (simp add: fad_body_def y r1_def)
  also have "\<dots> = (r1 @ (if \<not> matches script sig i then slice script i j else [])
        @ concat (map snd (retained script sig (butlast (segments script ((opc', d', j) # its))))),
      snd (snd (last ((opc', d', j) # its))),
      matches script sig (snd (snd (last ((opc', d', j) # its)))))"
    by (rule Cons.IH)
  also have "\<dots> = (r @ (if \<not> skip then slice script last_idx i else [])
        @ concat (map snd (retained script sig
             (butlast (segments script ((opc, d, i) # y # its))))),
      snd (snd (last ((opc, d, i) # y # its))),
      matches script sig (snd (snd (last ((opc, d, i) # y # its)))))"
    by (simp add: y r1_def segments_nonempty retained_def)
  finally show ?case .
qed

lemma FindAndDelete_segments:
  assumes "raw_iter script = (its, None)"
  shows "FindAndDelete script sig
           = Inr (concat (map snd (retained script sig (segments script its))))"
proof (cases its rule: rev_cases)
  case Nil
  with assms show ?thesis by (simp add: FindAndDelete_def retained_def)
next
  case (snoc xs x)
  obtain opc d i where x: "x = (opc, d, i)" by (cases x)
  obtain x0 rest where "xs @ [x] = x0 # rest" by (cases xs) auto
  with snoc have its0: "its = x0 # rest" by simp
  obtain opc0 d0 i0 where x0: "x0 = (opc0, d0, i0)" by (cases x0)
  note its = its0 [unfolded x0]
  have l: "snd (snd (last its)) = i" using snoc x by simp
  have seg: "segments script its = butlast (segments script its) @ [(i, drop i script)]"
    unfolding snoc x by (rule segments_last)
  have "retained script sig (segments script its)
     = retained script sig (butlast (segments script its))
        @ (if matches script sig i then [] else [(i, drop i script)])"
    by (subst seg) (simp add: retained_def)
  then show ?thesis
    using assms fad_loop [of script sig "[]" 0 True opc0 d0 i0 rest] l
    by (simp add: FindAndDelete_def its [symmetric])
qed

text \<open>
  C7. For a script that raw-iterates without error and any pattern, \<open>FindAndDelete\<close>
  returns the concatenation, in order, of the source bytes of exactly those instructions
  at whose offset the next \<open>len(sig)\<close> bytes of the script differ from the pattern. The
  source bytes of the instructions are slices of the script that tile it, so a retained
  instruction appears byte for byte as it stood, whatever its push encoding.
\<close>

theorem find_and_delete_retains_verbatim:
  "raw_iter script = (its, None) \<Longrightarrow>
     FindAndDelete script sig
       = Inr (concat (map snd
               (filter (\<lambda>(i, seg). slice script i (i + length sig) \<noteq> sig)
                  (segments script its))))
     \<and> concat (map snd (segments script its)) = script"
  using FindAndDelete_segments [of script its sig] segments_partition_from [of script 0 its]
  by (simp add: retained_def raw_iter_def)

theorem find_and_delete_retains_verbatim_witness:
  "raw_iter [0x51, 2, 7, 8, 0x76, 0x4C, 1, 9, 2, 7, 8]
     = ([(0x51, None, 0), (2, Some [7, 8], 1), (0x76, None, 4), (0x4C, Some [9], 5),
         (2, Some [7, 8], 8)], None)
   \<and> FindAndDelete [0x51, 2, 7, 8, 0x76, 0x4C, 1, 9, 2, 7, 8] [2, 7, 8]
     = Inr [0x51, 0x76, 0x4C, 1, 9]"
proof -
  have r: "raw_iter [0x51, 2, 7, 8, 0x76, 0x4C, 1, 9, 2, 7, 8]
     = ([(0x51, None, 0), (2, Some [7, 8], 1), (0x76, None, 4), (0x4C, Some [9], 5),
         (2, Some [7, 8], 8)], None)"
    by (simp add: iter_defs)
  from find_and_delete_retains_verbatim [OF r, of "[2, 7, 8]"] r
  show ?thesis by (simp add: slice_def)
qed

section \<open>Raw iteration of a concatenation\<close>

lemma pushdata_header_shift:
  "pushdata_header (p @ s) opc (length p + k)
   = (case pushdata_header s opc k of Inl e \<Rightarrow> Inl e | Inr (d, j) \<Rightarrow> Inr (d, length p + j))"
  by (simp add: pushdata_header_def nth_append)

lemma raw_iter_from_shift:
  "raw_iter_from (p @ s) (length p + i)
   = (shift_items (length p) (fst (raw_iter_from s i)), snd (raw_iter_from s i))"
proof (induction s i rule: raw_iter_from.induct)
  case (1 s i)
  show ?case
  proof (cases "i < length s")
    case False
    then show ?thesis by (simp add: raw_iter_from_end shift_items_def)
  next
    case il: True
    show ?thesis
    proof (cases "s ! i > OP_PUSHDATA4")
      case True
      with il 1(1) show ?thesis
        by (subst raw_iter_from.simps, subst (2 3) raw_iter_from.simps)
           (simp add: nth_append yield_def shift_items_def add.assoc)
    next
      case False
      show ?thesis
      proof (cases "pushdata_header s (s ! i) (i + 1)")
        case (Inl e)
        with il False show ?thesis
          using pushdata_header_shift [of p s "s ! i" "i + 1"]
          by (subst raw_iter_from.simps, subst (2 3) raw_iter_from.simps)
             (simp add: nth_append shift_items_def add.assoc)
      next
        case (Inr b)
        obtain d j where b: "b = (d, j)" by (cases b)
        show ?thesis
        proof (cases "length (take d (drop j s)) < d")
          case True
          with il False Inr b show ?thesis
            using pushdata_header_shift [of p s "s ! i" "i + 1"]
            by (subst raw_iter_from.simps, subst (2 3) raw_iter_from.simps)
               (simp add: nth_append shift_items_def add.assoc)
        next
          case lf: False
          from 1(2) [OF _ False Inr b [symmetric] lf] il
          have ih: "raw_iter_from (p @ s) (length p + (j + d))
            = (shift_items (length p) (fst (raw_iter_from s (j + d))),
               snd (raw_iter_from s (j + d)))" by simp
          with il False Inr b lf show ?thesis
            using pushdata_header_shift [of p s "s ! i" "i + 1"]
            by (subst raw_iter_from.simps, subst (2 3) raw_iter_from.simps)
               (simp add: nth_append shift_items_def add.assoc yield_def)
        qed
      qed
    qed
  qed
qed

lemma pushdata_header_append:
  "pushdata_header p opc k = Inr x \<Longrightarrow> pushdata_header (p @ t) opc k = Inr x"
  by (auto simp: pushdata_header_def nth_append split: if_splits)

lemma take_drop_append_full:
  "\<not> length (take d (drop j p)) < d \<Longrightarrow> take d (drop j (p @ t)) = take d (drop j p)"
  by (cases "d = 0") auto

lemma raw_iter_from_prefix:
  "raw_iter_from p i = (its, None) \<Longrightarrow> i \<le> length p
   \<Longrightarrow> raw_iter_from (p @ t) i
       = (its @ fst (raw_iter_from (p @ t) (length p)), snd (raw_iter_from (p @ t) (length p)))"
proof (induction p i arbitrary: its rule: raw_iter_from.induct)
  case (1 p i)
  show ?case
  proof (cases "i < length p")
    case False
    with 1(3,4) show ?thesis by (simp add: raw_iter_from_end)
  next
    case il: True
    show ?thesis
    proof (cases "p ! i > OP_PUSHDATA4")
      case True
      with il 1(3) have its: "its = (p ! i, None, i) # fst (raw_iter_from p (i + 1))"
        and e: "snd (raw_iter_from p (i + 1)) = None"
        by (auto simp: raw_iter_from.simps [of p i] yield_def)
      from e have "raw_iter_from p (i + 1) = (fst (raw_iter_from p (i + 1)), None)"
        by (simp add: prod_eq_iff)
      from 1(1) [OF _ True this] il
      have "raw_iter_from (p @ t) (i + 1)
        = (fst (raw_iter_from p (i + 1)) @ fst (raw_iter_from (p @ t) (length p)),
           snd (raw_iter_from (p @ t) (length p)))" by simp
      with il True its show ?thesis
        by (subst raw_iter_from.simps) (simp add: nth_append yield_def)
    next
      case False
      with il 1(3) obtain d j where h: "pushdata_header p (p ! i) (i + 1) = Inr (d, j)"
        by (auto simp: raw_iter_from.simps [of p i] split: sum.splits)
      from il have jb: "i + 1 \<le> j" "j \<le> length p"
        using pushdata_header_bound [OF h] by auto
      from il 1(3) False h have len: "\<not> length (take d (drop j p)) < d"
        by (auto simp: raw_iter_from.simps [of p i] split: if_splits)
      with il 1(3) False h
      have its: "its = (p ! i, Some (take d (drop j p)), i) # fst (raw_iter_from p (j + d))"
        and e: "snd (raw_iter_from p (j + d)) = None"
        by (auto simp: raw_iter_from.simps [of p i] yield_def)
      from len jb have jd: "j + d \<le> length p" by auto
      from e have "raw_iter_from p (j + d) = (fst (raw_iter_from p (j + d)), None)"
        by (simp add: prod_eq_iff)
      from 1(2) [OF _ False h refl len this jd] il
      have ih: "raw_iter_from (p @ t) (j + d)
        = (fst (raw_iter_from p (j + d)) @ fst (raw_iter_from (p @ t) (length p)),
           snd (raw_iter_from (p @ t) (length p)))" by simp
      from len have td: "take d (drop j (p @ t)) = take d (drop j p)"
        by (rule take_drop_append_full)
      have h': "pushdata_header (p @ t) (p ! i) (Suc i) = Inr (d, j)"
        using pushdata_header_append [OF h] by simp
      from il False its ih len show ?thesis
        by (subst raw_iter_from.simps)
           (simp add: nth_append yield_def h' td del: take_append drop_append)
    qed
  qed
qed

lemma raw_iter_append:
  assumes "raw_iter p = (its, None)"
  shows "raw_iter (p @ t) = (its @ shift_items (length p) (fst (raw_iter t)), snd (raw_iter t))"
  using raw_iter_from_prefix [of p 0 its t] raw_iter_from_shift [of p t 0] assms
  by (simp add: raw_iter_def)

section \<open>Truncated push data\<close>

lemma truncated_raw_iter:
  "truncated_push t = Some e \<Longrightarrow> raw_iter t = ([], Some e)"
proof (cases t)
  case Nil
  then show "truncated_push t = Some e \<Longrightarrow> ?thesis" by simp
next
  case (Cons opc rest)
  assume a: "truncated_push t = Some e"
  have le: "\<not> OP_PUSHDATA4 < opc" using a Cons
    by (auto split: if_splits simp: not_less word_less_nat_alt word_le_nat_alt)
  show ?thesis using a Cons le
    by (auto simp: raw_iter_def raw_iter_from.simps [of "opc # rest" 0] pushdata_header_def
          push_bit_eq_mult split: if_splits list.splits)
qed

lemma is_small_int_decodes: "is_small_int c \<Longrightarrow> \<exists>n. decode_op_n c = Inr n"
  by (auto simp: is_small_int_def decode_op_n_def)

lemma cook_total: "cook its e = (fst (cook its None), e)"
proof (induction its)
  case Nil
  show ?case by simp
next
  case (Cons it its)
  obtain opc d i where it: "it = (opc, d, i)" by (cases it)
  show ?case
    using is_small_int_decodes [of opc] Cons.IH
    by (cases d) (auto simp: it yield_def prod_eq_iff)
qed

lemma cook_append: "fst (cook (xs @ ys) e) = fst (cook xs None) @ fst (cook ys None)"
proof (induction xs)
  case Nil
  show ?case by (subst cook_total) simp
next
  case (Cons it its)
  obtain opc d i where it: "it = (opc, d, i)" by (cases it)
  show ?case
    using is_small_int_decodes [of opc] Cons.IH
    by (cases d) (auto simp: it yield_def)
qed

text \<open>
  C6, as the code has it. A script made of a part that raw-iterates without error and a
  truncated push: raw iteration yields the instructions of the first part and then
  raises, and cooked iteration yields their cooked values and raises the same exception.
  The exception is \<open>CScriptInvalidError\<close>, which carries no data, when length bytes are
  missing, and \<open>CScriptTruncatedPushDataError\<close> with the payload bytes present when the
  payload is short. No item is yielded for the truncated push.
\<close>

theorem truncated_push_raises:
  assumes "raw_iter p = (its, None)" and "truncated_push t = Some e"
  shows "raw_iter (p @ t) = (its, Some e) \<and> iter (p @ t) = (fst (iter p), Some e)"
proof -
  from raw_iter_append [OF assms(1), of t] truncated_raw_iter [OF assms(2)]
  have r: "raw_iter (p @ t) = (its, Some e)" by (simp add: shift_items_def)
  have "iter (p @ t) = cook its (Some e)" by (simp add: iter_def r)
  also have "\<dots> = (fst (cook its None), Some e)" by (rule cook_total)
  also have "\<dots> = (fst (iter p), Some e)" by (simp add: iter_def assms(1))
  finally show ?thesis using r by simp
qed

theorem truncated_push_raises_witness:
  "raw_iter [0x51] = ([(0x51, None, 0)], None)
   \<and> truncated_push [0x4C, 5, 1, 2] = Some (CScriptTruncatedPushDataError [1, 2])
   \<and> raw_iter ([0x51] @ [0x4C, 5, 1, 2])
       = ([(0x51, None, 0)], Some (CScriptTruncatedPushDataError [1, 2]))
   \<and> iter ([0x51] @ [0x4C, 5, 1, 2])
       = ([ItemInt 1], Some (CScriptTruncatedPushDataError [1, 2]))"
proof -
  have r: "raw_iter [0x51] = ([(0x51, None, 0)], None)"
    by (simp add: iter_defs)
  have t: "truncated_push [0x4C, 5, 1, 2] = Some (CScriptTruncatedPushDataError [1, 2])"
    by simp
  have i: "fst (iter [0x51]) = [ItemInt 1]"
    by (simp add: iter_defs)
  from truncated_push_raises [OF r t] r t i show ?thesis by simp
qed

text \<open>
  C6 as stated fails where the length bytes are missing: on the one-byte script \<open>0x4C\<close>
  both iterations raise \<open>CScriptInvalidError\<close>, the base error, which has no data field,
  not the truncation error that carries the partial data.
\<close>

theorem missing_length_raises_plain_error:
  "raw_iter [0x4C] = ([], Some CScriptInvalidError)
   \<and> iter [0x4C] = ([], Some CScriptInvalidError)"
  by (simp add: iter_defs)

end
